theory Spec2Isabelle
  imports Main
begin

section \<open>Values of the JavaScript runtime\<close>

text \<open>
  Text is a list of characters; a character stands for one code unit of a JavaScript
  string, of which the type \<open>char\<close> has the first 256. The stream is modelled after
  \<^verbatim>\<open>TextDecoder.decode(value, {stream: true})\<close>: a chunk is the text the decoder
  hands to the loop for one \<^verbatim>\<open>reader.read()\<close>. The decoder keeps an incomplete
  byte sequence for the next call, so the texts of the chunks, put together, are the
  text of the bytes, however the bytes are cut.
\<close>

definition startsWith :: "string \<Rightarrow> string \<Rightarrow> bool" where
  "startsWith s p = (take (length p) s = p)"

fun includes_str :: "string \<Rightarrow> string \<Rightarrow> bool" where
  "includes_str [] p = (p = [])"
| "includes_str (c # cs) p = (startsWith (c # cs) p \<or> includes_str cs p)"

text \<open>
  \<^verbatim>\<open>s.trim()\<close> removes white space and line terminators at both ends: among the
  first 256 code units these are tab, line feed, vertical tab, form feed, carriage
  return, space and no-break space.
\<close>

definition is_ws :: "char \<Rightarrow> bool" where
  "is_ws c = (c \<in> set [CHR 0x09, CHR 0x0A, CHR 0x0B, CHR 0x0C, CHR 0x0D, CHR 0x20, CHR 0xA0])"

definition trim :: "string \<Rightarrow> string" where
  "trim s = rev (dropWhile is_ws (rev (dropWhile is_ws s)))"

text \<open>\<^verbatim>\<open>s.split('\n')\<close>: the pieces between line feeds; never the empty array.\<close>

fun split_nl :: "string \<Rightarrow> string list" where
  "split_nl [] = [] # []"
| "split_nl (c # cs) =
     (if c = CHR 0x0A then [] # split_nl cs
      else (case split_nl cs of [] \<Rightarrow> [c] # [] | l # ls \<Rightarrow> (c # l) # ls))"

text \<open>\<^verbatim>\<open>n.toString()\<close> and \<^verbatim>\<open>`${n}`\<close> for a non-negative integer.\<close>

fun digits :: "nat \<Rightarrow> string" where
  "digits n =
     (if n < 10 then [''0123456789'' ! n]
      else digits (n div 10) @ [''0123456789'' ! (n mod 10)])"

text \<open>
  What \<^verbatim>\<open>JSON.parse\<close> returns. A number is kept as the text that JavaScript's
  number-to-string conversion gives for it, which is \<open>''0''\<close> for both zeros.
  An object is the list of its own properties, each key once.
\<close>

datatype json =
    JNull
  | JBool bool
  | JNumber string
  | JString string
  | JArray "json list"
  | JObject "(string \<times> json) list"

text \<open>The result of reading a property: \<^verbatim>\<open>undefined\<close> or a value.\<close>

datatype jsval = Undefined | Val json

text \<open>
  \<^verbatim>\<open>JSON.parse\<close> is a built-in of the runtime, so the functions below take it as the
  parameter \<open>parse\<close>: \<open>None\<close> where it throws a syntax error.
\<close>

type_synonym json_parse = "string \<Rightarrow> json option"

fun truthy :: "json \<Rightarrow> bool" where
  "truthy JNull = False"
| "truthy (JBool b) = b"
| "truthy (JNumber s) = (s \<noteq> ''0'')"
| "truthy (JString s) = (s \<noteq> [])"
| "truthy (JArray xs) = True"
| "truthy (JObject kvs) = True"

text \<open>
  \<^verbatim>\<open>v.key\<close> on a value other than \<^verbatim>\<open>null\<close>, for the keys the program reads
  (text, message, detail, id, title, content, similarity, type), none of which a
  prototype defines. On \<^verbatim>\<open>null\<close> the read throws a TypeError: every caller below
  tests for \<open>JNull\<close> first.
\<close>

fun js_get :: "json \<Rightarrow> string \<Rightarrow> jsval" where
  "js_get (JObject kvs) k = (case map_of kvs k of None \<Rightarrow> Undefined | Some v \<Rightarrow> Val v)"
| "js_get v k = Undefined"

fun join_with :: "string \<Rightarrow> string list \<Rightarrow> string" where
  "join_with sep [] = []"
| "join_with sep [x] = x"
| "join_with sep (x # y # ys) = x @ sep @ join_with sep (y # ys)"

text \<open>
  Turning a value into a string, as \<^verbatim>\<open>new Error(v)\<close> and \<^verbatim>\<open>s + v\<close> do. The
  conversion throws a TypeError on an object with an own property \<^verbatim>\<open>toString\<close>
  (a parsed value is never callable), also when it meets one inside an array;
  \<open>convertible\<close> says that it does not throw. An array is joined with commas,
  \<^verbatim>\<open>null\<close> elements giving the empty string; any other object gives
  \<^verbatim>\<open>[object Object]\<close>. \<open>js_to_string\<close> is the result on a convertible value.
\<close>

fun convertible :: "json \<Rightarrow> bool" where
  "convertible (JArray xs) = list_all convertible xs"
| "convertible (JObject kvs) = (map_of kvs ''toString'' = None)"
| "convertible v = True"

fun js_to_string :: "json \<Rightarrow> string" where
  "js_to_string JNull = ''null''"
| "js_to_string (JBool b) = (if b then ''true'' else ''false'')"
| "js_to_string (JNumber s) = s"
| "js_to_string (JString s) = s"
| "js_to_string (JArray xs) =
     join_with '','' (map (\<lambda>x. if x = JNull then [] else js_to_string x) xs)"
| "js_to_string (JObject kvs) = ''[object Object]''"

text \<open>\<^verbatim>\<open>x || y\<close> where \<open>x\<close> is the result of a property read.\<close>

fun or_else :: "jsval \<Rightarrow> json \<Rightarrow> json" where
  "or_else Undefined y = y"
| "or_else (Val v) y = (if truthy v then v else y)"

text \<open>An \<^verbatim>\<open>Error\<close> object: its name and its message.\<close>

datatype js_error = JsError (error_name: string) (error_message: string)

definition new_Error :: "string \<Rightarrow> js_error" where
  "new_Error m = JsError ''Error'' m"

text \<open>
  The TypeError of a failed conversion. Its message is the engine's; the program never
  inspects it beyond the two substrings the \<^verbatim>\<open>catch\<close> block looks for.
\<close>

definition conversion_error :: js_error where
  "conversion_error = JsError ''TypeError'' ''Cannot convert object to primitive value''"

text \<open>
  A thrown value: an instance of \<^verbatim>\<open>Error\<close>, or anything else, kept as the text
  \<^verbatim>\<open>String(error)\<close> gives.
\<close>

datatype thrown = ErrorObj js_error | NonError string

section \<open>completionsApi.ts\<close>


text \<open>The object \<^verbatim>\<open>onSources\<close> receives for one element of the payload.\<close>

record source =
  src_id :: jsval
  src_title :: jsval
  src_content :: jsval
  src_similarity :: jsval
  src_type :: jsval

text \<open>The calls made on the \<^verbatim>\<open>CompletionCallbacks\<close>, with their arguments.\<close>

datatype callback =
    OnContent json
  | OnReasoning json
  | OnSources "source list"
  | OnComplete
  | OnError js_error

text \<open>
  The local variables of \<^verbatim>\<open>streamCompletionWithEvents\<close>, whether
  \<^verbatim>\<open>clearTimeout()\<close> has run, and the calls made so far, oldest first.
  The callbacks are taken to return normally, as those of App.tsx do.
\<close>

record session =
  buffer :: string
  currentEvent :: string
  hasReceivedContent :: bool
  timerCleared :: bool
  calls :: "callback list"

definition init_session :: session where
  "init_session =
     \<lparr>buffer = [], currentEvent = [], hasReceivedContent = False,
      timerCleared = False, calls = []\<rparr>"

datatype flow = Continue | Return

definition call :: "callback \<Rightarrow> session \<Rightarrow> session" where
  "call c st = st\<lparr>calls := calls st @ [c]\<rparr>"

definition mk_source :: "json \<Rightarrow> source" where
  "mk_source s =
     \<lparr>src_id = js_get s ''id'', src_title = js_get s ''title'',
      src_content = js_get s ''content'', src_similarity = js_get s ''similarity'',
      src_type = js_get s ''type''\<rparr>"

text \<open>
  The \<^verbatim>\<open>switch (currentEvent)\<close> on a parsed payload. A TypeError raised in it
  (a property read on \<^verbatim>\<open>null\<close>, or the conversion of the error message) is caught
  by the \<^verbatim>\<open>catch\<close> around the parse: processing continues with the next line. In
  the error case \<^verbatim>\<open>clearTimeout()\<close> has run by then.
\<close>

definition dispatch :: "string \<Rightarrow> json \<Rightarrow> session \<Rightarrow> session \<times> flow" where
  "dispatch ev data st =
     (if ev = ''content'' then
        (if data = JNull then (st, Continue)
         else (case js_get data ''text'' of
                 Undefined \<Rightarrow> (st, Continue)
               | Val t \<Rightarrow>
                   if truthy t
                   then (call (OnContent t) (st\<lparr>hasReceivedContent := True\<rparr>), Continue)
                   else (st, Continue)))
      else if ev = ''reasoning'' then
        (if data = JNull then (st, Continue)
         else (case js_get data ''text'' of
                 Undefined \<Rightarrow> (st, Continue)
               | Val t \<Rightarrow>
                   if truthy t then (call (OnReasoning t) st, Continue)
                   else (st, Continue)))
      else if ev = ''sources'' then
        (case data of
           JArray xs \<Rightarrow>
             if JNull \<in> set xs then (st, Continue)
             else (call (OnSources (map mk_source xs)) st, Continue)
         | _ \<Rightarrow> (st, Continue))
      else if ev = ''error'' then
        (let st1 = st\<lparr>timerCleared := True\<rparr>;
             message = or_else (js_get data ''message'') (JString ''Unknown error from server'')
         in if data = JNull \<or> \<not> convertible message then (st1, Continue)
            else (call (OnError (new_Error (js_to_string message))) st1, Return))
      else if ev = ''done'' then
        (call OnComplete (st\<lparr>timerCleared := True\<rparr>), Return)
      else (st, Continue))"

text \<open>The body of \<^verbatim>\<open>for (const line of lines)\<close>.\<close>

definition process_line :: "json_parse \<Rightarrow> session \<Rightarrow> string \<Rightarrow> session \<times> flow" where
  "process_line parse st line =
     (if startsWith line ''event: '' then (st\<lparr>currentEvent := trim (drop 7 line)\<rparr>, Continue)
      else if startsWith line ''data: '' then
        (case parse (drop 6 line) of
           None \<Rightarrow> (st, Continue)
         | Some data \<Rightarrow> dispatch (currentEvent st) data st)
      else if line = [] then (st\<lparr>currentEvent := []\<rparr>, Continue)
      else (st, Continue))"

text \<open>The \<^verbatim>\<open>for\<close> loop: a \<^verbatim>\<open>return\<close> in its body leaves the function.\<close>

fun process_lines :: "json_parse \<Rightarrow> session \<Rightarrow> string list \<Rightarrow> session \<times> flow" where
  "process_lines parse st [] = (st, Continue)"
| "process_lines parse st (l # ls) =
     (case process_line parse st l of
        (st', Return) \<Rightarrow> (st', Return)
      | (st', Continue) \<Rightarrow> process_lines parse st' ls)"

text \<open>
  One round of the \<^verbatim>\<open>while\<close> loop after a chunk has been read: append to the
  buffer, split, \<^verbatim>\<open>buffer = lines.pop() || ''\<close>, then the \<^verbatim>\<open>for\<close> loop.
\<close>

definition process_chunk :: "json_parse \<Rightarrow> session \<Rightarrow> string \<Rightarrow> session \<times> flow" where
  "process_chunk parse st chunk =
     (let lines = split_nl (buffer st @ chunk);
          popped = (if lines = [] then [] else last lines)
      in process_lines parse (st\<lparr>buffer := popped\<rparr>) (butlast lines))"

text \<open>How the body stream ends: \<^verbatim>\<open>reader.read()\<close> reports done, or rejects.\<close>

datatype body_end = StreamEnd | ReadThrows thrown

text \<open>
  The inner \<^verbatim>\<open>try\<close> block: the \<^verbatim>\<open>while\<close> loop over the chunks read and the
  code after it. The second component is the exception that leaves the block, if any.
\<close>

fun read_loop ::
  "json_parse \<Rightarrow> session \<Rightarrow> string list \<Rightarrow> body_end \<Rightarrow> session \<times> thrown option" where
  "read_loop parse st [] StreamEnd =
     (let st1 = st\<lparr>timerCleared := True\<rparr> in
      if hasReceivedContent st1 then (call OnComplete st1, None)
      else (call (OnError (new_Error ''Connection closed without receiving response'')) st1,
            None))"
| "read_loop parse st [] (ReadThrows e) = (st, Some e)"
| "read_loop parse st (c # cs) fin =
     (case process_chunk parse st c of
        (st', Return) \<Rightarrow> (st', None)
      | (st', Continue) \<Rightarrow> read_loop parse st' cs fin)"

text \<open>The outer \<^verbatim>\<open>catch (error)\<close> block.\<close>

definition catch_error :: "session \<Rightarrow> thrown \<Rightarrow> session" where
  "catch_error st e =
     call (OnError
       (case e of
          ErrorObj err \<Rightarrow>
            if error_name err = ''AbortError''
            then new_Error ''Request timed out. Please try again.''
            else if includes_str (error_message err) ''Failed to fetch''
                  \<or> includes_str (error_message err) ''NetworkError''
            then new_Error ''Network error. Please check your connection.''
            else err
        | NonError s \<Rightarrow> new_Error s))
       (st\<lparr>timerCleared := True\<rparr>)"

text \<open>What \<^verbatim>\<open>response.json()\<close> does on a failure response.\<close>

datatype json_body = JsonRejects | JsonValue json

text \<open>
  What the network does for one request: \<^verbatim>\<open>fetch\<close> rejects; the response is
  not ok (status, status text, body); it is ok with no body; or it is ok with a body that
  delivers chunks of text and then ends.
\<close>

datatype fetch_result =
    FetchThrows thrown
  | NotOk nat string json_body
  | NoBody
  | Body "string list" body_end

text \<open>The value of \<^verbatim>\<open>errorMessage\<close> when \<^verbatim>\<open>throw new Error(errorMessage)\<close> is reached.\<close>

definition http_error_message :: "nat \<Rightarrow> string \<Rightarrow> json_body \<Rightarrow> json" where
  "http_error_message status statusText body =
     (case body of
        JsonRejects \<Rightarrow> JString (''HTTP '' @ digits status @ '': '' @ statusText)
      | JsonValue errorData \<Rightarrow>
          if errorData = JNull then JString (''HTTP '' @ digits status @ '': '' @ statusText)
          else or_else (js_get errorData ''detail'')
                 (or_else (js_get errorData ''message'') (JString (''HTTP '' @ digits status))))"

text \<open>
  The end of the function after the inner \<^verbatim>\<open>try\<close> block: the outer \<^verbatim>\<open>catch\<close>
  where the block threw.
\<close>

definition finish :: "session \<times> thrown option \<Rightarrow> session" where
  "finish r = (case r of (st, None) \<Rightarrow> st | (st, Some e) \<Rightarrow> catch_error st e)"

definition streamCompletionWithEvents :: "json_parse \<Rightarrow> fetch_result \<Rightarrow> session" where
  "streamCompletionWithEvents parse net =
     (case net of
        FetchThrows e \<Rightarrow> catch_error init_session e
      | NotOk status statusText body \<Rightarrow>
          (let errorMessage = http_error_message status statusText body in
           catch_error (init_session\<lparr>timerCleared := True\<rparr>)
             (ErrorObj (if convertible errorMessage
                        then new_Error (js_to_string errorMessage)
                        else conversion_error)))
      | NoBody \<Rightarrow>
          catch_error (init_session\<lparr>timerCleared := True\<rparr>)
            (ErrorObj (new_Error ''No response body received''))
      | Body chunks fin \<Rightarrow> finish (read_loop parse init_session chunks fin))"

subsection \<open>The timer\<close>







section \<open>App.tsx\<close>

datatype role = User | Assistant | System

datatype step_status = Pending | InProgress | Completed

record search_step =
  step_id :: string
  step_label :: string
  step_status :: step_status

record message =
  msg_id :: string
  role :: role
  content :: string
  reasoning :: "string option"
  timestamp :: nat
  sources :: "source list option"
  searchSteps :: "search_step list option"
  isThinking :: "bool option"

text \<open>The value of \<^verbatim>\<open>lastSendRef.current\<close> when it is not \<^verbatim>\<open>null\<close>.\<close>

record snapshot =
  snap_messages :: "message list"
  snap_input :: string

text \<open>
  The state of the component that the send, the stream callbacks and the retry touch.
  State updates are applied in the order they are issued. Saving the chat to the
  history is outside the model.
\<close>

record app =
  messages :: "message list"
  input :: string
  isLoading :: bool
  error :: "string option"
  lastSendRef :: "snapshot option"

definition updateBotMessage :: "string \<Rightarrow> (message \<Rightarrow> message) \<Rightarrow> app \<Rightarrow> app" where
  "updateBotMessage i updates a =
     a\<lparr>messages := map (\<lambda>m. if msg_id m = i then updates m else m) (messages a)\<rparr>"

definition onContent :: "string \<Rightarrow> string \<Rightarrow> app \<Rightarrow> app" where
  "onContent botMsgId chunk a =
     a\<lparr>messages :=
         map (\<lambda>m. if msg_id m = botMsgId
                  then m\<lparr>content := content m @ chunk, isThinking := Some False\<rparr> else m)
           (messages a)\<rparr>"

definition onReasoning :: "string \<Rightarrow> string \<Rightarrow> app \<Rightarrow> app" where
  "onReasoning botMsgId chunk a =
     a\<lparr>messages :=
         map (\<lambda>m. if msg_id m = botMsgId
                  then m\<lparr>reasoning :=
                         Some ((case reasoning m of None \<Rightarrow> [] | Some r \<Rightarrow> r) @ chunk)\<rparr>
                  else m)
           (messages a)\<rparr>"

definition onSources :: "string \<Rightarrow> source list \<Rightarrow> app \<Rightarrow> app" where
  "onSources botMsgId srcs a =
     updateBotMessage botMsgId
       (\<lambda>m. m\<lparr>sources := Some srcs,
              searchSteps :=
                Some [\<lparr>step_id = ''1'', step_label = ''Analyzing documents...'',
                       step_status = Completed\<rparr>]\<rparr>) a"

definition onComplete :: "string \<Rightarrow> app \<Rightarrow> app" where
  "onComplete botMsgId a =
     (updateBotMessage botMsgId (\<lambda>m. m\<lparr>isThinking := Some False\<rparr>)
        (a\<lparr>isLoading := False\<rparr>))\<lparr>lastSendRef := None\<rparr>"

text \<open>\<^verbatim>\<open>const errorMsg = err.message || "Unknown error occurred"\<close>\<close>

definition errorMsg :: "js_error \<Rightarrow> string" where
  "errorMsg err =
     (if error_message err = [] then ''Unknown error occurred'' else error_message err)"

definition onError :: "string \<Rightarrow> js_error \<Rightarrow> app \<Rightarrow> app" where
  "onError botMsgId err a =
     (updateBotMessage botMsgId
        (\<lambda>m. m\<lparr>content := ''**Error:** '' @ errorMsg err, isThinking := Some False\<rparr>)
        (a\<lparr>isLoading := False\<rparr>))\<lparr>error := Some (errorMsg err)\<rparr>"

text \<open>
  One call made by \<^verbatim>\<open>streamCompletionWithEvents\<close>, applied to the state. The
  text callbacks compute \<^verbatim>\<open>m.content + chunk\<close>, which turns the argument into a
  string; the argument is taken to be convertible, as every string is.
\<close>

fun deliver :: "string \<Rightarrow> app \<Rightarrow> callback \<Rightarrow> app" where
  "deliver botMsgId a (OnContent v) = onContent botMsgId (js_to_string v) a"
| "deliver botMsgId a (OnReasoning v) = onReasoning botMsgId (js_to_string v) a"
| "deliver botMsgId a (OnSources srcs) = onSources botMsgId srcs a"
| "deliver botMsgId a OnComplete = onComplete botMsgId a"
| "deliver botMsgId a (OnError err) = onError botMsgId err a"

text \<open>The four readings of \<^verbatim>\<open>Date.now()\<close> in \<^verbatim>\<open>handleSendMessage\<close>, in order.\<close>

record clock =
  userIdNow :: nat
  userTsNow :: nat
  botIdNow :: nat
  botTsNow :: nat

definition botMsgId :: "clock \<Rightarrow> string" where
  "botMsgId ck = digits (botIdNow ck + 1)"

text \<open>
  \<^verbatim>\<open>handleSendMessage\<close> up to the call of \<^verbatim>\<open>streamCompletionWithEvents\<close>, for a
  send that passes the guard \<^verbatim>\<open>if (!input.trim() || isLoading) return\<close>.
\<close>

definition start_send :: "clock \<Rightarrow> app \<Rightarrow> app" where
  "start_send ck a =
     (let userMsg =
            \<lparr>msg_id = digits (userIdNow ck), role = User, content = trim (input a),
             reasoning = None, timestamp = userTsNow ck, sources = None,
             searchSteps = None, isThinking = None\<rparr>;
          botMsg =
            \<lparr>msg_id = botMsgId ck, role = Assistant, content = [],
             reasoning = Some [], timestamp = botTsNow ck, sources = None,
             searchSteps =
               Some [\<lparr>step_id = ''1'', step_label = ''Processing...'',
                      step_status = InProgress\<rparr>],
             isThinking = Some True\<rparr>
      in a\<lparr>error := None,
           lastSendRef := Some \<lparr>snap_messages = messages a, snap_input = trim (input a)\<rparr>,
           input := [],
           messages := messages a @ [userMsg, botMsg],
           isLoading := True\<rparr>)"

definition handleSendMessage :: "json_parse \<Rightarrow> clock \<Rightarrow> fetch_result \<Rightarrow> app \<Rightarrow> app" where
  "handleSendMessage parse ck net a =
     (if trim (input a) = [] \<or> isLoading a then a
      else foldl (deliver (botMsgId ck)) (start_send ck a)
             (calls (streamCompletionWithEvents parse net)))"

text \<open>
  \<^verbatim>\<open>handleRetry\<close>: the new state, and whether a click on the send button has been
  scheduled.
\<close>

definition handleRetry :: "app \<Rightarrow> app \<times> bool" where
  "handleRetry a =
     (case lastSendRef a of
        None \<Rightarrow> (a, False)
      | Some snap \<Rightarrow>
          (a\<lparr>input := snap_input snap, messages := snap_messages snap, error := None\<rparr>,
           True))"

section \<open>Notions for the properties\<close>

text \<open>The two terminal calls.\<close>

fun is_complete :: "callback \<Rightarrow> bool" where
  "is_complete OnComplete = True"
| "is_complete c = False"

fun is_error :: "callback \<Rightarrow> bool" where
  "is_error (OnError e) = True"
| "is_error c = False"

definition is_terminal :: "callback \<Rightarrow> bool" where
  "is_terminal c = (is_complete c \<or> is_error c)"

text \<open>The number of terminal calls made so far, and whether the latest call is one.\<close>

definition terminals :: "session \<Rightarrow> nat" where
  "terminals st = length (filter is_complete (calls st)) + length (filter is_error (calls st))"

definition ends_terminal :: "session \<Rightarrow> bool" where
  "ends_terminal st = (calls st \<noteq> [] \<and> is_terminal (last (calls st)))"

text \<open>The content and reasoning calls, and the payloads of each kind in arrival order.\<close>

fun is_delta :: "callback \<Rightarrow> bool" where
  "is_delta (OnContent v) = True"
| "is_delta (OnReasoning v) = True"
| "is_delta c = False"

fun content_payloads :: "callback list \<Rightarrow> json list" where
  "content_payloads [] = []"
| "content_payloads (OnContent v # cs) = v # content_payloads cs"
| "content_payloads (c # cs) = content_payloads cs"

fun reasoning_payloads :: "callback list \<Rightarrow> json list" where
  "reasoning_payloads [] = []"
| "reasoning_payloads (OnReasoning v # cs) = v # reasoning_payloads cs"
| "reasoning_payloads (c # cs) = reasoning_payloads cs"

fun is_content :: "callback \<Rightarrow> bool" where
  "is_content (OnContent v) = True"
| "is_content c = False"

text \<open>
  The frames the loop body decodes from a list of lines when it starts with the pending
  event name \<open>ev\<close> and takes no return: for every data line that parses, the
  pending event name and the payload on which the \<^verbatim>\<open>switch\<close> is entered.
\<close>

fun frames :: "json_parse \<Rightarrow> string \<Rightarrow> string list \<Rightarrow> (string \<times> json) list" where
  "frames parse ev [] = []"
| "frames parse ev (l # ls) =
     (if startsWith l ''event: '' then frames parse (trim (drop 7 l)) ls
      else if startsWith l ''data: '' then
        (case parse (drop 6 l) of
           None \<Rightarrow> frames parse ev ls
         | Some d \<Rightarrow> (ev, d) # frames parse ev ls)
      else if l = [] then frames parse [] ls
      else frames parse ev ls)"



text \<open>The flag \<^verbatim>\<open>hasReceivedContent\<close> says whether \<^verbatim>\<open>onContent\<close> has been called.\<close>

definition content_seen :: "session \<Rightarrow> bool" where
  "content_seen st = (hasReceivedContent st = list_ex is_content (calls st))"

text \<open>
  The lines of a text that a line feed ends; the three fields of a session that the
  lines determine (the buffer set aside); and the loop run on the whole text at once.
\<close>

definition complete_lines :: "string \<Rightarrow> string list" where
  "complete_lines s = butlast (split_nl s)"

definition forget :: "session \<Rightarrow> session" where
  "forget st = st\<lparr>buffer := []\<rparr>"

definition run_text :: "json_parse \<Rightarrow> session \<Rightarrow> string \<Rightarrow> body_end \<Rightarrow> session \<times> thrown option" where
  "run_text parse st s fin =
     (case process_lines parse st (complete_lines s) of
        (st', Return) \<Rightarrow> (st', None)
      | (st', Continue) \<Rightarrow> read_loop parse st' [] fin)"

text \<open>
  The message a session writes to is the one appended last by \<^verbatim>\<open>handleSendMessage\<close>;
  \<open>targets b a\<close> says that the last message of the transcript carries the id \<open>b\<close>.
\<close>

definition target :: "app \<Rightarrow> message" where
  "target a = last (messages a)"

definition targets :: "string \<Rightarrow> app \<Rightarrow> bool" where
  "targets b a = (messages a \<noteq> [] \<and> msg_id (last (messages a)) = b)"

section \<open>Inputs of the worked examples\<close>

text \<open>
  The value of \<^verbatim>\<open>JSON.parse\<close> on the payloads that the worked examples use; every
  other payload occurring in them is malformed.
\<close>

definition parse_example :: json_parse where
  \<open>parse_example s =
     (if s = ''{"text":"Hi"}'' then Some (JObject [(''text'', JString ''Hi'')])
      else if s = ''{"text":" there"}'' then Some (JObject [(''text'', JString '' there'')])
      else if s = ''{"message":"rate limited"}''
      then Some (JObject [(''message'', JString ''rate limited'')])
      else if s = ''{}'' then Some (JObject [])
      else if s = ''[]'' then Some (JArray [])
      else if s = ''null'' then Some JNull
      else None)\<close>

text \<open>
  Two response bodies: a content delta followed by a server error, and a content delta
  followed by the done event.
\<close>

definition stream_hi_error :: string where
  \<open>stream_hi_error =
     ''event: content\<newline>data: {"text":"Hi"}\<newline>\<newline>event: error\<newline>data: {"message":"rate limited"}\<newline>\<newline>''\<close>

definition stream_hi_done :: string where
  \<open>stream_hi_done =
     ''event: content\<newline>data: {"text":"Hi"}\<newline>\<newline>event: done\<newline>data: {}\<newline>\<newline>''\<close>

text \<open>A body with one content frame and no done event, and a body cut off mid-line.\<close>

definition stream_hi_only :: string where
  \<open>stream_hi_only = ''event: content\<newline>data: {"text":"Hi"}\<newline>\<newline>''\<close>

definition stream_cut :: string where
  \<open>stream_cut = ''event: content\<newline>data: {"te''\<close>

text \<open>The same response body, delivered whole and delivered in seven pieces.\<close>

definition chunks_a :: "string list" where
  \<open>chunks_a = [''event: content\<newline>data: {"text":"Hi"}\<newline>\<newline>event: done\<newline>data: {}\<newline>\<newline>'']\<close>

definition chunks_b :: "string list" where
  \<open>chunks_b = [''eve'', ''nt: content\<newline>da'', ''ta: {"te'', ''xt":"Hi"}'', ''\<newline>'', ''\<newline>event: done\<newline>data: {}'', ''\<newline>\<newline>'']\<close>

text \<open>
  Pieces of response bodies: lines before a data line, the data line itself, and what
  follows it.
\<close>

definition pre_content :: string where
  \<open>pre_content = ''event: content\<newline>''\<close>

definition line_malformed :: string where
  \<open>line_malformed = ''data: {"te''\<close>

definition post_hi_done :: string where
  \<open>post_hi_done = ''data: {"text":"Hi"}\<newline>\<newline>event: done\<newline>data: {}\<newline>\<newline>''\<close>

definition pre_hi_done :: string where
  \<open>pre_hi_done = ''event: content\<newline>data: {"text":"Hi"}\<newline>\<newline>event: done\<newline>''\<close>

definition line_payload :: string where
  \<open>line_payload = ''data: {"message":"rate limited"}''\<close>

definition post_there :: string where
  \<open>post_there = ''event: content\<newline>data: {"text":" there"}\<newline>\<newline>''\<close>




definition session_before_done :: session where
  "session_before_done =
     \<lparr>buffer = [], currentEvent = ''done'', hasReceivedContent = True,
      timerCleared = False, calls = [OnContent (JString ''Hi'')]\<rparr>"





text \<open>A component with input typed and no chat yet, and four clock readings.\<close>

definition app0 :: app where
  "app0 =
     \<lparr>messages = [], input = ''Hello '', isLoading = False, error = None,
      lastSendRef = None\<rparr>"

definition clock0 :: clock where
  "clock0 = \<lparr>userIdNow = 1000, userTsNow = 1000, botIdNow = 1000, botTsNow = 1001\<rparr>"

text \<open>
  The state after a send whose session failed, with new input typed, and the state
  after a send whose session completed.
\<close>

definition app_failed :: app where
  "app_failed =
     (handleSendMessage parse_example clock0 (Body [stream_hi_error] StreamEnd) app0)
       \<lparr>input := ''again''\<rparr>"

definition app_done :: app where
  "app_done = handleSendMessage parse_example clock0 (Body [stream_hi_done] StreamEnd) app0"

section \<open>Properties of the stream session\<close>

subsection \<open>Terminal calls\<close>

lemma dispatch_terminals:
  "dispatch ev d st = (st', f) \<Longrightarrow>
     terminals st' = (if f = Return then Suc (terminals st) else terminals st)
     \<and> (f = Return \<longrightarrow> ends_terminal st')"
  by (auto simp: dispatch_def terminals_def ends_terminal_def is_terminal_def call_def Let_def
           split: if_splits jsval.splits json.splits)

lemma process_line_terminals:
  "process_line parse st l = (st', f) \<Longrightarrow>
     terminals st' = (if f = Return then Suc (terminals st) else terminals st)
     \<and> (f = Return \<longrightarrow> ends_terminal st')"
  unfolding process_line_def
  by (auto simp: terminals_def split: if_splits option.splits dest: dispatch_terminals)

lemma process_lines_terminals:
  "process_lines parse st ls = (st', f) \<Longrightarrow>
     terminals st' = (if f = Return then Suc (terminals st) else terminals st)
     \<and> (f = Return \<longrightarrow> ends_terminal st')"
proof (induction ls arbitrary: st)
  case Nil
  then show ?case by simp
next
  case (Cons l ls)
  obtain st1 f1 where l: "process_line parse st l = (st1, f1)"
    by (cases "process_line parse st l")
  show ?case
  proof (cases f1)
    case Continue
    with Cons.prems l have "process_lines parse st1 ls = (st', f)" by simp
    from Cons.IH [OF this] process_line_terminals [OF l] Continue show ?thesis by simp
  next
    case Return
    with Cons.prems l have "st' = st1" "f = Return" by simp_all
    with process_line_terminals [OF l] Return show ?thesis by simp
  qed
qed

lemma process_chunk_terminals:
  "process_chunk parse st c = (st', f) \<Longrightarrow>
     terminals st' = (if f = Return then Suc (terminals st) else terminals st)
     \<and> (f = Return \<longrightarrow> ends_terminal st')"
  unfolding process_chunk_def Let_def
  by (drule process_lines_terminals) (simp add: terminals_def)

lemma read_loop_terminals:
  "read_loop parse st cs fin = (st', r) \<Longrightarrow>
     terminals st' = (if r = None then Suc (terminals st) else terminals st)
     \<and> (r = None \<longrightarrow> ends_terminal st')"
proof (induction cs arbitrary: st)
  case Nil
  then show ?case
    by (cases fin)
      (auto simp: terminals_def ends_terminal_def is_terminal_def call_def Let_def
            split: if_splits)
next
  case (Cons c cs)
  obtain st1 f1 where c: "process_chunk parse st c = (st1, f1)"
    by (cases "process_chunk parse st c")
  show ?case
  proof (cases f1)
    case Continue
    with Cons.prems c have "read_loop parse st1 cs fin = (st', r)" by simp
    from Cons.IH [OF this] process_chunk_terminals [OF c] Continue show ?thesis by simp
  next
    case Return
    with Cons.prems c have "st' = st1" "r = None" by simp_all
    with process_chunk_terminals [OF c] Return show ?thesis by simp
  qed
qed

lemma catch_error_terminals:
  "terminals (catch_error st e) = Suc (terminals st) \<and> ends_terminal (catch_error st e)"
  by (simp add: catch_error_def terminals_def ends_terminal_def is_terminal_def call_def)

lemma terminals_init:
  "terminals init_session = 0"
  "terminals (init_session\<lparr>timerCleared := True\<rparr>) = 0"
  by (simp_all add: terminals_def init_session_def)

lemma session_one_terminal:
  "terminals (streamCompletionWithEvents parse net) = 1
   \<and> ends_terminal (streamCompletionWithEvents parse net)"
proof (cases net)
  case (Body chunks fin)
  obtain st r where rl: "read_loop parse init_session chunks fin = (st, r)"
    by (cases "read_loop parse init_session chunks fin")
  from read_loop_terminals [OF rl] rl Body show ?thesis
    by (cases r)
      (simp_all add: streamCompletionWithEvents_def finish_def catch_error_terminals
                     terminals_init)
qed (simp_all add: streamCompletionWithEvents_def catch_error_terminals terminals_init
       Let_def)

text \<open>
  Claim C3. Whatever the network does (\<^verbatim>\<open>fetch\<close> rejects, a failure response, a
  response without body, or a body that delivers any chunks and then ends or fails, a
  timeout abort being the rejection named AbortError), every awaited promise settling
  one way or the other, the calls of \<^verbatim>\<open>onComplete\<close> and of \<^verbatim>\<open>onError\<close> made by
  one session number exactly one in total, so exactly one of the two is invoked and
  neither more than once; that call is the last one of the session.
\<close>

theorem exactly_one_terminal_callback:
  "length (filter is_complete (calls (streamCompletionWithEvents parse net)))
     + length (filter is_error (calls (streamCompletionWithEvents parse net))) = 1
   \<and> is_terminal (last (calls (streamCompletionWithEvents parse net)))"
  using session_one_terminal [of parse net]
  by (simp add: terminals_def ends_terminal_def)

subsection \<open>The target message under the stream callbacks\<close>

lemma deliver_targets: "targets b a \<Longrightarrow> targets b (deliver b a c)"
  by (cases c)
    (auto simp: targets_def onContent_def onReasoning_def onSources_def onComplete_def
                onError_def updateBotMessage_def last_map)

lemma foldl_deliver_targets: "targets b a \<Longrightarrow> targets b (foldl (deliver b) a cs)"
  by (induction cs arbitrary: a) (simp_all add: deliver_targets)

lemma deliver_content:
  "targets b a \<Longrightarrow>
     content (target (deliver b a c)) =
       (case c of
          OnContent v \<Rightarrow> content (target a) @ js_to_string v
        | OnError e \<Rightarrow> ''**Error:** '' @ errorMsg e
        | _ \<Rightarrow> content (target a))"
  by (cases c)
    (auto simp: targets_def target_def onContent_def onReasoning_def onSources_def
                onComplete_def onError_def updateBotMessage_def last_map)

lemma deliver_reasoning:
  "targets b a \<Longrightarrow>
     reasoning (target (deliver b a c)) =
       (case c of
          OnReasoning v \<Rightarrow>
            Some ((case reasoning (target a) of None \<Rightarrow> [] | Some r \<Rightarrow> r) @ js_to_string v)
        | _ \<Rightarrow> reasoning (target a))"
  by (cases c)
    (auto simp: targets_def target_def onContent_def onReasoning_def onSources_def
                onComplete_def onError_def updateBotMessage_def last_map)

lemma deltas_accumulate:
  "targets b a \<Longrightarrow> list_all is_delta cs \<Longrightarrow> reasoning (target a) = Some r \<Longrightarrow>
     content (target (foldl (deliver b) a cs))
       = content (target a) @ concat (map js_to_string (content_payloads cs))
     \<and> reasoning (target (foldl (deliver b) a cs))
       = Some (r @ concat (map js_to_string (reasoning_payloads cs)))"
proof (induction cs arbitrary: a r)
  case Nil
  then show ?case by simp
next
  case (Cons c cs)
  from Cons.prems(2) have d: "is_delta c" and ds: "list_all is_delta cs" by simp_all
  have t: "targets b (deliver b a c)" using Cons.prems(1) by (rule deliver_targets)
  from d show ?case
  proof (cases c)
    case (OnContent v)
    have r: "reasoning (target (deliver b a c)) = Some r"
      using deliver_reasoning [OF Cons.prems(1), of c] Cons.prems(3) OnContent by simp
    have c: "content (target (deliver b a c)) = content (target a) @ js_to_string v"
      using deliver_content [OF Cons.prems(1), of c] OnContent by simp
    from Cons.IH [OF t ds r] c OnContent show ?thesis by simp
  next
    case (OnReasoning v)
    have r: "reasoning (target (deliver b a c)) = Some (r @ js_to_string v)"
      using deliver_reasoning [OF Cons.prems(1), of c] Cons.prems(3) OnReasoning by simp
    have c: "content (target (deliver b a c)) = content (target a)"
      using deliver_content [OF Cons.prems(1), of c] OnReasoning by simp
    from Cons.IH [OF t ds r] c OnReasoning show ?thesis by simp
  qed simp_all
qed

lemma start_send_target:
  "targets (botMsgId ck) (start_send ck a)
   \<and> content (target (start_send ck a)) = []
   \<and> reasoning (target (start_send ck a)) = Some []"
  by (simp add: start_send_def targets_def target_def Let_def)

text \<open>
  Claim C7. After a send, for every sequence of content and reasoning calls in any
  interleaving, the target message (the assistant message the send appended, which
  carries the id the callbacks match on) ends with \<open>content\<close> equal to the
  concatenation of the content payloads in arrival order and \<open>reasoning\<close> equal to
  the concatenation of the reasoning payloads in arrival order: each delta is appended
  and neither accumulator receives a payload of the other.
\<close>

theorem deltas_concatenate:
  "list_all is_delta cs \<Longrightarrow>
     (let m = last (messages (foldl (deliver (botMsgId ck)) (start_send ck a) cs)) in
        msg_id m = botMsgId ck
        \<and> content m = concat (map js_to_string (content_payloads cs))
        \<and> reasoning m = Some (concat (map js_to_string (reasoning_payloads cs))))"
  using deltas_accumulate [of "botMsgId ck" "start_send ck a" cs "[]"]
        foldl_deliver_targets [of "botMsgId ck" "start_send ck a" cs]
        start_send_target [of ck a]
  by (simp add: target_def targets_def)

theorem deltas_concatenate_witness:
  "list_all is_delta
     [OnContent (JString ''Hel''), OnReasoning (JString ''think''),
      OnContent (JString ''lo''), OnReasoning (JString ''ing'')]
   \<and> (let m = last (messages (foldl (deliver (botMsgId clock0)) (start_send clock0 app0)
                 [OnContent (JString ''Hel''), OnReasoning (JString ''think''),
                  OnContent (JString ''lo''), OnReasoning (JString ''ing'')])) in
        msg_id m = ''1001'' \<and> content m = ''Hello'' \<and> reasoning m = Some ''thinking'')"
proof -
  have h: "list_all is_delta
     [OnContent (JString ''Hel''), OnReasoning (JString ''think''),
      OnContent (JString ''lo''), OnReasoning (JString ''ing'')]"
    by simp
  from deltas_concatenate [OF h, of clock0 app0] h show ?thesis
    by (simp add: botMsgId_def clock0_def)
qed

subsection \<open>A session that ends with an error\<close>

lemma deliver_error_field:
  "error (deliver b a (OnError e)) = Some (errorMsg e)"
  by (simp add: onError_def updateBotMessage_def)

lemma calls_snoc:
  "calls (streamCompletionWithEvents parse net)
     = butlast (calls (streamCompletionWithEvents parse net))
       @ [last (calls (streamCompletionWithEvents parse net))]"
  using session_one_terminal [of parse net] by (simp add: ends_terminal_def)

text \<open>
  Claim C1, as amended. For every accepted send whose session ends with
  \<^verbatim>\<open>onError(err)\<close>, the content of the target message is replaced by the error
  annotation \<^verbatim>\<open>**Error:** <message>\<close> whatever had streamed before, partial content
  included, and the same message is put into the error state that the notice shows.
\<close>

theorem error_replaces_content:
  assumes "trim (input a) \<noteq> []" and "\<not> isLoading a"
    and "last (calls (streamCompletionWithEvents parse net)) = OnError err"
  shows "(let a' = handleSendMessage parse ck net a; m = last (messages a') in
            msg_id m = botMsgId ck
            \<and> content m = ''**Error:** '' @ errorMsg err
            \<and> error a' = Some (errorMsg err))"
proof -
  let ?cs = "calls (streamCompletionWithEvents parse net)"
  let ?mid = "foldl (deliver (botMsgId ck)) (start_send ck a) (butlast ?cs)"
  have cs: "?cs = butlast ?cs @ [OnError err]"
    using calls_snoc [of parse net] assms(3) by simp
  have "foldl (deliver (botMsgId ck)) (start_send ck a) ?cs
          = foldl (deliver (botMsgId ck)) (start_send ck a) (butlast ?cs @ [OnError err])"
    using cs by (rule arg_cong)
  then have h: "handleSendMessage parse ck net a = deliver (botMsgId ck) ?mid (OnError err)"
    using assms(1,2) by (simp add: handleSendMessage_def)
  have t: "targets (botMsgId ck) ?mid"
    using start_send_target [of ck a] by (simp add: foldl_deliver_targets)
  from deliver_targets [OF t, of "OnError err"] deliver_content [OF t, of "OnError err"]
    deliver_error_field [of "botMsgId ck" ?mid err] h
  show ?thesis by (simp add: targets_def target_def)
qed

theorem error_replaces_content_witness:
  "trim (input app0) \<noteq> [] \<and> \<not> isLoading app0
   \<and> last (calls (streamCompletionWithEvents parse_example (Body [stream_hi_error] StreamEnd)))
       = OnError (new_Error ''rate limited'')
   \<and> (let a' = handleSendMessage parse_example clock0 (Body [stream_hi_error] StreamEnd) app0;
           m = last (messages a') in
         msg_id m = ''1001'' \<and> content m = ''**Error:** rate limited''
         \<and> error a' = Some ''rate limited'')"
proof -
  have h1: "trim (input app0) \<noteq> []" by (simp add: app0_def trim_def is_ws_def)
  have h2: "\<not> isLoading app0" by (simp add: app0_def)
  have h3: "last (calls (streamCompletionWithEvents parse_example
                (Body [stream_hi_error] StreamEnd)))
              = OnError (new_Error ''rate limited'')"
    by code_simp
  from error_replaces_content [OF h1 h2 h3, of clock0] h1 h2 h3 show ?thesis
    by (simp add: botMsgId_def clock0_def errorMsg_def new_Error_def)
qed

text \<open>
  The claim as first stated fails: with the body \<open>stream_hi_error\<close> the delta
  \<open>Hi\<close> is delivered and shown, then the error event arrives, and the final content
  is the annotation alone.
\<close>

theorem partial_content_discarded:
  "calls (streamCompletionWithEvents parse_example (Body [stream_hi_error] StreamEnd))
     = [OnContent (JString ''Hi''), OnError (new_Error ''rate limited'')]
   \<and> content (last (messages (foldl (deliver (botMsgId clock0)) (start_send clock0 app0)
        [OnContent (JString ''Hi'')]))) = ''Hi''
   \<and> content (last (messages
        (handleSendMessage parse_example clock0 (Body [stream_hi_error] StreamEnd) app0)))
       = ''**Error:** rate limited''
   \<and> \<not> includes_str (content (last (messages
        (handleSendMessage parse_example clock0 (Body [stream_hi_error] StreamEnd) app0))))
          ''Hi''"
  by code_simp

subsection \<open>The retry snapshot\<close>

lemma deliver_lastSendRef:
  "lastSendRef (deliver b a c) = (if is_complete c then None else lastSendRef a)"
  by (cases c)
    (simp_all add: onContent_def onReasoning_def onSources_def onComplete_def onError_def
                   updateBotMessage_def)

lemma foldl_deliver_lastSendRef:
  "lastSendRef (foldl (deliver b) a cs)
     = (if filter is_complete cs = [] then lastSendRef a else None)"
  by (induction cs arbitrary: a) (simp_all add: deliver_lastSendRef)

lemma last_complete:
  "is_complete (last (calls (streamCompletionWithEvents parse net)))
   \<Longrightarrow> filter is_complete (calls (streamCompletionWithEvents parse net)) \<noteq> []"
  using session_one_terminal [of parse net]
  by (auto simp: ends_terminal_def filter_empty_conv)

lemma last_error:
  assumes "is_error (last (calls (streamCompletionWithEvents parse net)))"
  shows "filter is_complete (calls (streamCompletionWithEvents parse net)) = []"
proof -
  let ?cs = "calls (streamCompletionWithEvents parse net)"
  from session_one_terminal [of parse net]
  have one: "length (filter is_complete ?cs) + length (filter is_error ?cs) = 1"
    and ne: "?cs \<noteq> []"
    by (simp_all add: terminals_def ends_terminal_def)
  from ne assms have "last ?cs \<in> set (filter is_error ?cs)" by simp
  then have "filter is_error ?cs \<noteq> []" by force
  then have "0 < length (filter is_error ?cs)" by simp
  with one have "length (filter is_complete ?cs) = 0" by linarith
  then show ?thesis by simp
qed

text \<open>
  Claim C9. The reference \<^verbatim>\<open>lastSendRef\<close> holds at most one snapshot (it is one
  optional value). After an accepted send whose session resolves via \<^verbatim>\<open>onComplete\<close> it
  is empty; after one whose session resolves via \<^verbatim>\<open>onError\<close> it still holds the
  snapshot of that send (the prior messages and the trimmed input); \<^verbatim>\<open>handleRetry\<close>
  with no snapshot held changes nothing and schedules no send; and a new send stores its
  own snapshot whatever was held before.
\<close>

theorem retry_snapshot_lifecycle:
  "(trim (input a) \<noteq> [] \<and> \<not> isLoading a
      \<and> is_complete (last (calls (streamCompletionWithEvents parse net)))
      \<longrightarrow> lastSendRef (handleSendMessage parse ck net a) = None)
   \<and> (trim (input a) \<noteq> [] \<and> \<not> isLoading a
      \<and> is_error (last (calls (streamCompletionWithEvents parse net)))
      \<longrightarrow> lastSendRef (handleSendMessage parse ck net a)
            = Some \<lparr>snap_messages = messages a, snap_input = trim (input a)\<rparr>)
   \<and> (lastSendRef a = None \<longrightarrow> handleRetry a = (a, False))
   \<and> lastSendRef (start_send ck a)
        = Some \<lparr>snap_messages = messages a, snap_input = trim (input a)\<rparr>"
  using last_complete [of parse net] last_error [of parse net]
  by (auto simp: handleSendMessage_def foldl_deliver_lastSendRef handleRetry_def
                 start_send_def Let_def)

theorem retry_snapshot_lifecycle_witness:
  "trim (input app0) \<noteq> [] \<and> \<not> isLoading app0
   \<and> is_complete (last (calls (streamCompletionWithEvents parse_example
        (Body [stream_hi_done] StreamEnd))))
   \<and> lastSendRef app_done = None
   \<and> handleRetry app_done = (app_done, False)
   \<and> is_error (last (calls (streamCompletionWithEvents parse_example
        (Body [stream_hi_error] StreamEnd))))
   \<and> lastSendRef app_failed = Some \<lparr>snap_messages = [], snap_input = ''Hello''\<rparr>
   \<and> lastSendRef (start_send clock0 app_failed)
        = Some \<lparr>snap_messages = messages app_failed, snap_input = ''again''\<rparr>"
proof -
  have h1: "trim (input app0) \<noteq> []" by code_simp
  have h2: "\<not> isLoading app0" by code_simp
  have h3: "is_complete (last (calls (streamCompletionWithEvents parse_example
        (Body [stream_hi_done] StreamEnd))))" by code_simp
  have h4: "is_error (last (calls (streamCompletionWithEvents parse_example
        (Body [stream_hi_error] StreamEnd))))" by code_simp
  have t: "trim (input app0) = ''Hello''" "messages app0 = []"
    "trim (input app_failed) = ''again''"
    by code_simp+
  from retry_snapshot_lifecycle
         [of app0 parse_example "Body [stream_hi_done] StreamEnd" clock0] h1 h2 h3
  have d: "lastSendRef app_done = None" by (simp add: app_done_def)
  from retry_snapshot_lifecycle
         [of app0 parse_example "Body [stream_hi_error] StreamEnd" clock0] h1 h2 h4
  have f: "lastSendRef app_failed = Some \<lparr>snap_messages = [], snap_input = ''Hello''\<rparr>"
    by (simp add: app_failed_def t)
  from retry_snapshot_lifecycle [of app_done parse_example NoBody clock0] d
  have r: "handleRetry app_done = (app_done, False)" by simp
  from retry_snapshot_lifecycle [of app_failed parse_example NoBody clock0]
  have s: "lastSendRef (start_send clock0 app_failed)
        = Some \<lparr>snap_messages = messages app_failed, snap_input = ''again''\<rparr>"
    by (simp add: t)
  from h1 h2 h3 h4 d f r s show ?thesis by simp
qed

subsection \<open>The read loop depends on the text only\<close>

lemma split_nl_nonempty: "split_nl s \<noteq> []"
  by (induction s) (auto split: list.splits)

lemma split_nl_append:
  "split_nl (a @ b) = butlast (split_nl a) @ split_nl (last (split_nl a) @ b)"
proof (induction a)
  case Nil
  then show ?case by simp
next
  case (Cons c a)
  then show ?case
    by (cases "split_nl a"; cases "butlast (split_nl a)")
       (auto simp: split_nl_nonempty split: list.splits if_splits)
qed

lemma complete_lines_append:
  "complete_lines (a @ b) = complete_lines a @ complete_lines (last (split_nl a) @ b)"
  unfolding complete_lines_def
  by (subst split_nl_append) (simp add: butlast_append split_nl_nonempty)

lemma last_split_nl_append:
  "last (split_nl (a @ b)) = last (split_nl (last (split_nl a) @ b))"
  by (subst split_nl_append) (simp add: split_nl_nonempty)

lemma split_nl_no_nl: "CHR 0x0A \<notin> set s \<Longrightarrow> split_nl s = [s]"
  by (induction s) auto

lemma last_split_nl_no_nl: "CHR 0x0A \<notin> set (last (split_nl s))"
  by (induction s) (auto simp: split_nl_nonempty split: list.splits)

lemma process_lines_append:
  "process_lines parse st (xs @ ys) =
     (case process_lines parse st xs of
        (st', Return) \<Rightarrow> (st', Return)
      | (st', Continue) \<Rightarrow> process_lines parse st' ys)"
  by (induction xs arbitrary: st) (auto split: prod.splits flow.splits)

lemma dispatch_buffer:
  "dispatch ev d (st\<lparr>buffer := b\<rparr>) = apfst (\<lambda>s. s\<lparr>buffer := b\<rparr>) (dispatch ev d st)"
  by (simp add: dispatch_def call_def Let_def split: jsval.splits json.splits)

lemma process_line_buffer:
  "process_line parse (st\<lparr>buffer := b\<rparr>) l
     = apfst (\<lambda>s. s\<lparr>buffer := b\<rparr>) (process_line parse st l)"
  by (simp add: process_line_def dispatch_buffer split: option.splits)

lemma process_lines_buffer:
  "process_lines parse (st\<lparr>buffer := b\<rparr>) ls
     = apfst (\<lambda>s. s\<lparr>buffer := b\<rparr>) (process_lines parse st ls)"
proof (induction ls arbitrary: st)
  case Nil
  then show ?case by simp
next
  case (Cons l ls)
  obtain st1 f1 where l: "process_line parse st l = (st1, f1)"
    by (cases "process_line parse st l")
  with Cons.IH [of st1] show ?case
    by (cases f1) (simp_all add: process_line_buffer)
qed

lemma process_lines_forget:
  "apfst forget (process_lines parse st ls) = apfst forget (process_lines parse (forget st) ls)"
  unfolding forget_def
  by (simp add: process_lines_buffer apfst_def map_prod_def split: prod.splits)

lemma read_loop_end_forget:
  "apfst forget (read_loop parse st [] fin) = apfst forget (read_loop parse (forget st) [] fin)"
  by (cases fin) (simp_all add: forget_def call_def Let_def)

lemma run_text_forget:
  "apfst forget (run_text parse st s fin) = apfst forget (run_text parse (forget st) s fin)"
proof -
  obtain st1 f1 where p: "process_lines parse st (complete_lines s) = (st1, f1)"
    by (cases "process_lines parse st (complete_lines s)")
  obtain st2 f2 where q: "process_lines parse (forget st) (complete_lines s) = (st2, f2)"
    by (cases "process_lines parse (forget st) (complete_lines s)")
  from process_lines_forget [of parse st "complete_lines s"] p q
  have e: "forget st1 = forget st2" "f1 = f2" by simp_all
  show ?thesis
  proof (cases f1)
    case Continue
    with e p q read_loop_end_forget [of parse st1 fin] read_loop_end_forget [of parse st2 fin]
    show ?thesis by (simp add: run_text_def)
  next
    case Return
    with e p q show ?thesis by (simp add: run_text_def)
  qed
qed

lemma read_loop_text:
  "CHR 0x0A \<notin> set (buffer st) \<Longrightarrow>
     apfst forget (read_loop parse st cs fin)
       = apfst forget (run_text parse st (buffer st @ concat cs) fin)"
proof (induction cs arbitrary: st)
  case Nil
  then show ?case by (simp add: run_text_def complete_lines_def split_nl_no_nl)
next
  case (Cons c cs)
  let ?b = "last (split_nl (buffer st @ c))"
  obtain st1 f1 where p: "process_lines parse st (complete_lines (buffer st @ c)) = (st1, f1)"
    by (cases "process_lines parse st (complete_lines (buffer st @ c))")
  have pc: "process_chunk parse st c = (st1\<lparr>buffer := ?b\<rparr>, f1)"
    using p by (simp add: process_chunk_def complete_lines_def Let_def split_nl_nonempty
                          process_lines_buffer)
  have cl: "complete_lines (buffer st @ concat (c # cs))
              = complete_lines (buffer st @ c) @ complete_lines (?b @ concat cs)"
    using complete_lines_append [of "buffer st @ c" "concat cs"] by simp
  show ?case
  proof (cases f1)
    case Return
    with pc p cl show ?thesis
      by (simp add: run_text_def process_lines_append forget_def)
  next
    case Continue
    have nb: "CHR 0x0A \<notin> set (buffer (st1\<lparr>buffer := ?b\<rparr>))"
      by (simp add: last_split_nl_no_nl)
    have "apfst forget (read_loop parse st (c # cs) fin)
            = apfst forget (read_loop parse (st1\<lparr>buffer := ?b\<rparr>) cs fin)"
      using pc Continue by simp
    also have "\<dots> = apfst forget (run_text parse (st1\<lparr>buffer := ?b\<rparr>) (?b @ concat cs) fin)"
      using Cons.IH [OF nb] by simp
    also have "\<dots> = apfst forget (run_text parse st1 (?b @ concat cs) fin)"
      using run_text_forget [of parse "st1\<lparr>buffer := ?b\<rparr>"] run_text_forget [of parse st1]
      by (simp add: forget_def)
    also have "\<dots> = apfst forget (run_text parse st (buffer st @ concat (c # cs)) fin)"
      using p Continue cl by (simp add: run_text_def process_lines_append)
    finally show ?thesis .
  qed
qed

lemma catch_error_forget: "forget (catch_error st e) = catch_error (forget st) e"
  by (simp add: catch_error_def forget_def call_def)

lemma finish_forget: "apfst forget r = apfst forget r' \<Longrightarrow> forget (finish r) = forget (finish r')"
  by (cases r; cases r'; cases "snd r") (auto simp: finish_def catch_error_forget)

lemma session_text:
  "forget (streamCompletionWithEvents parse (Body cs fin))
     = forget (finish (run_text parse init_session (concat cs) fin))"
proof -
  have "apfst forget (read_loop parse init_session cs fin)
          = apfst forget (run_text parse init_session (concat cs) fin)"
    using read_loop_text [of init_session parse cs fin] by (simp add: init_session_def)
  then have "forget (finish (read_loop parse init_session cs fin))
          = forget (finish (run_text parse init_session (concat cs) fin))"
    by (rule finish_forget)
  then show ?thesis
    by (simp add: streamCompletionWithEvents_def finish_def split: prod.splits option.splits)
qed

lemma forget_fields:
  "calls (forget st) = calls st" "timerCleared (forget st) = timerCleared st"
  "hasReceivedContent (forget st) = hasReceivedContent st"
  "currentEvent (forget st) = currentEvent st"
  by (simp_all add: forget_def)

text \<open>
  Claim C4. A chunk is the text decoded from one read. For any two ways of cutting the
  same text into chunks (the concatenations agree) and the same way of ending (end of
  stream, or a failing read), the session makes the same calls with the same arguments
  in the same order, and ends with the same timer state, pending event name and
  content flag: where the chunk boundaries fall has no effect.
\<close>

theorem chunk_boundary_independence:
  assumes "concat cs = concat cs'"
  shows "calls (streamCompletionWithEvents parse (Body cs fin))
           = calls (streamCompletionWithEvents parse (Body cs' fin))
         \<and> timerCleared (streamCompletionWithEvents parse (Body cs fin))
           = timerCleared (streamCompletionWithEvents parse (Body cs' fin))
         \<and> currentEvent (streamCompletionWithEvents parse (Body cs fin))
           = currentEvent (streamCompletionWithEvents parse (Body cs' fin))
         \<and> hasReceivedContent (streamCompletionWithEvents parse (Body cs fin))
           = hasReceivedContent (streamCompletionWithEvents parse (Body cs' fin))"
proof -
  have "forget (streamCompletionWithEvents parse (Body cs fin))
          = forget (streamCompletionWithEvents parse (Body cs' fin))"
    using assms by (simp add: session_text)
  then show ?thesis
    by (metis forget_fields)
qed

theorem chunk_boundary_independence_witness:
  "concat chunks_a = concat chunks_b
   \<and> calls (streamCompletionWithEvents parse_example (Body chunks_a StreamEnd))
       = [OnContent (JString ''Hi''), OnComplete]
   \<and> calls (streamCompletionWithEvents parse_example (Body chunks_b StreamEnd))
       = [OnContent (JString ''Hi''), OnComplete]"
proof -
  have h: "concat chunks_a = concat chunks_b" by (simp add: chunks_a_def chunks_b_def)
  have a: "calls (streamCompletionWithEvents parse_example (Body chunks_a StreamEnd))
       = [OnContent (JString ''Hi''), OnComplete]" by code_simp
  from chunk_boundary_independence [OF h, of parse_example StreamEnd] a h show ?thesis by simp
qed

subsection \<open>The stream ends without a terminal event\<close>

lemma dispatch_currentEvent: "currentEvent (fst (dispatch ev d st)) = currentEvent st"
  by (simp add: dispatch_def call_def Let_def split: jsval.splits json.splits)

lemma dispatch_continue:
  "ev \<noteq> ''done'' \<Longrightarrow> ev \<noteq> ''error'' \<Longrightarrow> snd (dispatch ev d st) = Continue"
  by (simp add: dispatch_def call_def Let_def split: jsval.splits json.splits)

lemma dispatch_continueD:
  "dispatch ev d st = (st', f) \<Longrightarrow> ev \<noteq> ''done'' \<Longrightarrow> ev \<noteq> ''error'' \<Longrightarrow> f = Continue"
  using dispatch_continue [of ev d st] by simp

lemma dispatch_currentEventD:
  "dispatch ev d st = (st', f) \<Longrightarrow> currentEvent st' = currentEvent st"
  using dispatch_currentEvent [of ev d st] by simp

lemma dispatch_content_seen: "content_seen st \<Longrightarrow> content_seen (fst (dispatch ev d st))"
  by (simp add: dispatch_def content_seen_def call_def Let_def split: jsval.splits json.splits)

lemma process_line_content_seen:
  "content_seen st \<Longrightarrow> content_seen (fst (process_line parse st l))"
  by (simp add: process_line_def dispatch_content_seen split: option.splits)
     (simp add: content_seen_def)

lemma process_lines_content_seen:
  "content_seen st \<Longrightarrow> content_seen (fst (process_lines parse st ls))"
proof (induction ls arbitrary: st)
  case Nil
  then show ?case by simp
next
  case (Cons l ls)
  obtain st1 f1 where l: "process_line parse st l = (st1, f1)"
    by (cases "process_line parse st l")
  from process_line_content_seen [OF Cons.prems, of parse l] l have "content_seen st1" by simp
  with Cons.IH [of st1] l show ?case by (cases f1) simp_all
qed

lemma frames_continue:
  "\<forall>(ev, d) \<in> set (frames parse (currentEvent st) ls). ev \<noteq> ''done'' \<and> ev \<noteq> ''error''
   \<Longrightarrow> snd (process_lines parse st ls) = Continue"
proof (induction ls arbitrary: st)
  case Nil
  then show ?case by simp
next
  case (Cons l ls)
  obtain st1 f1 where l: "process_line parse st l = (st1, f1)"
    by (cases "process_line parse st l")
  have f1: "f1 = Continue"
    using l Cons.prems
    by (auto simp: process_line_def split: if_splits option.splits dest: dispatch_continueD)
  have "frames parse (currentEvent st1) ls
          = (if startsWith l ''event: '' then frames parse (trim (drop 7 l)) ls
             else if startsWith l ''data: '' then frames parse (currentEvent st) ls
             else if l = [] then frames parse [] ls
             else frames parse (currentEvent st) ls)"
    using l
    by (auto simp: process_line_def split: if_splits option.splits
             dest: dispatch_currentEventD)
  with Cons.prems
  have "\<forall>(ev, d) \<in> set (frames parse (currentEvent st1) ls). ev \<noteq> ''done'' \<and> ev \<noteq> ''error''"
    by (auto split: if_splits option.splits)
  from Cons.IH [OF this] l f1 show ?case by simp
qed

text \<open>
  Claim C2. If no frame decoded from the complete lines of the body has the event name
  \<open>done\<close> or \<open>error\<close> and the stream ends, the session ends with
  \<^verbatim>\<open>onComplete\<close> when \<^verbatim>\<open>onContent\<close> was called at least once before, and with
  \<^verbatim>\<open>onError\<close> carrying the message
  \<^verbatim>\<open>Connection closed without receiving response\<close> when it was never called.
\<close>

theorem silent_close_resolution:
  assumes "\<forall>(ev, d) \<in> set (frames parse [] (complete_lines (concat cs))).
             ev \<noteq> ''done'' \<and> ev \<noteq> ''error''"
  shows "(let r = calls (streamCompletionWithEvents parse (Body cs StreamEnd)) in
            r = butlast r @
                [if list_ex is_content (butlast r) then OnComplete
                 else OnError (new_Error ''Connection closed without receiving response'')])"
proof -
  obtain st where p: "process_lines parse init_session (complete_lines (concat cs)) = (st, Continue)"
    using frames_continue [of parse init_session "complete_lines (concat cs)"] assms
    by (cases "process_lines parse init_session (complete_lines (concat cs))")
       (simp add: init_session_def)
  have "content_seen init_session" by (simp add: content_seen_def init_session_def)
  from process_lines_content_seen [OF this, of parse "complete_lines (concat cs)"] p
  have cs: "hasReceivedContent st = list_ex is_content (calls st)"
    by (simp add: content_seen_def)
  have "calls (streamCompletionWithEvents parse (Body cs StreamEnd))
          = calls (finish (run_text parse init_session (concat cs) StreamEnd))"
    using session_text [of parse cs StreamEnd] by (metis forget_fields(1))
  also have "\<dots> = calls st @
                [if list_ex is_content (calls st) then OnComplete
                 else OnError (new_Error ''Connection closed without receiving response'')]"
    using p cs by (simp add: run_text_def finish_def call_def Let_def)
  finally show ?thesis by (simp add: Let_def)
qed

theorem silent_close_resolution_witness:
  "frames parse_example [] (complete_lines (concat [stream_hi_only]))
     = [(''content'', JObject [(''text'', JString ''Hi'')])]
   \<and> calls (streamCompletionWithEvents parse_example (Body [stream_hi_only] StreamEnd))
       = [OnContent (JString ''Hi''), OnComplete]
   \<and> frames parse_example [] (complete_lines (concat [stream_cut])) = []
   \<and> calls (streamCompletionWithEvents parse_example (Body [stream_cut] StreamEnd))
       = [OnError (new_Error ''Connection closed without receiving response'')]"
proof -
  have f1: "frames parse_example [] (complete_lines (concat [stream_hi_only]))
              = [(''content'', JObject [(''text'', JString ''Hi'')])]"
    by code_simp
  have f2: "frames parse_example [] (complete_lines (concat [stream_cut])) = []"
    by code_simp
  have h1: "\<forall>(ev, d) \<in> set (frames parse_example [] (complete_lines (concat [stream_hi_only]))).
      ev \<noteq> ''done'' \<and> ev \<noteq> ''error''"
    unfolding f1 by simp
  have h2: "\<forall>(ev, d) \<in> set (frames parse_example [] (complete_lines (concat [stream_cut]))).
      ev \<noteq> ''done'' \<and> ev \<noteq> ''error''"
    unfolding f2 by simp
  have b1: "butlast (calls (streamCompletionWithEvents parse_example
              (Body [stream_hi_only] StreamEnd))) = [OnContent (JString ''Hi'')]"
    by code_simp
  have b2: "butlast (calls (streamCompletionWithEvents parse_example
              (Body [stream_cut] StreamEnd))) = []"
    by code_simp
  from silent_close_resolution [OF h1] b1
  have c1: "calls (streamCompletionWithEvents parse_example (Body [stream_hi_only] StreamEnd))
       = [OnContent (JString ''Hi''), OnComplete]"
    by (simp add: Let_def)
  from silent_close_resolution [OF h2] b2
  have c2: "calls (streamCompletionWithEvents parse_example (Body [stream_cut] StreamEnd))
       = [OnError (new_Error ''Connection closed without receiving response'')]"
    by (simp add: Let_def)
  from f1 f2 c1 c2 show ?thesis by simp
qed

subsection \<open>Single lines inside a stream\<close>

lemma split_nl_line:
  "CHR 0x0A \<notin> set r \<Longrightarrow> split_nl (r @ CHR 0x0A # t) = r # split_nl t"
  by (induction r) auto

lemma last_split_nl_terminated:
  assumes "pre = [] \<or> last pre = CHR 0x0A"
  shows "last (split_nl pre) = []"
proof (cases "pre = []")
  case True
  then show ?thesis by simp
next
  case False
  with assms have pre: "pre = butlast pre @ [CHR 0x0A]"
    by (metis append_butlast_last_id)
  let ?r = "last (split_nl (butlast pre))"
  have "split_nl (?r @ [CHR 0x0A]) = [?r, []]"
    using split_nl_line [OF last_split_nl_no_nl, of "butlast pre" "[]"] by simp
  then have "last (split_nl (butlast pre @ [CHR 0x0A])) = []"
    by (subst last_split_nl_append) simp
  with pre show ?thesis by simp
qed

lemma complete_lines_line:
  assumes "pre = [] \<or> last pre = CHR 0x0A" and "CHR 0x0A \<notin> set l"
  shows "complete_lines (pre @ l @ [CHR 0x0A] @ post)
           = complete_lines pre @ l # complete_lines post"
    and "complete_lines (pre @ post) = complete_lines pre @ complete_lines post"
proof -
  have e: "last (split_nl pre) = []" using assms(1) by (rule last_split_nl_terminated)
  show "complete_lines (pre @ l @ [CHR 0x0A] @ post)
           = complete_lines pre @ l # complete_lines post"
    using complete_lines_append [of pre "l @ [CHR 0x0A] @ post"] e
          split_nl_line [OF assms(2), of post]
    by (simp add: complete_lines_def split_nl_nonempty)
  show "complete_lines (pre @ post) = complete_lines pre @ complete_lines post"
    using complete_lines_append [of pre post] e by simp
qed

lemma data_not_event: "startsWith l ''data: '' \<Longrightarrow> \<not> startsWith l ''event: ''"
  by (cases l) (auto simp: startsWith_def)

lemma process_line_malformed:
  "startsWith l ''data: '' \<Longrightarrow> parse (drop 6 l) = None \<Longrightarrow>
     process_line parse st l = (st, Continue)"
  by (simp add: process_line_def data_not_event)

lemma process_lines_skip:
  assumes "\<And>st. process_line parse st l = (st, Continue)"
  shows "process_lines parse st (xs @ l # ys) = process_lines parse st (xs @ ys)"
  by (simp add: process_lines_append assms split: prod.splits flow.splits)

text \<open>
  Claim C5. Let a body contain a whole line that starts with \<^verbatim>\<open>data: \<close> and whose
  payload \<^verbatim>\<open>JSON.parse\<close> rejects. Then the session makes exactly the calls it makes
  on the body without that line, however either body is cut into chunks and however it
  ends: the line is skipped, nothing is aborted, and every frame after it is handled as
  if the line had not been there.
\<close>

theorem malformed_frame_skipped:
  assumes "startsWith l ''data: ''" and "parse (drop 6 l) = None"
    and "CHR 0x0A \<notin> set l" and "pre = [] \<or> last pre = CHR 0x0A"
    and "concat cs = pre @ l @ [CHR 0x0A] @ post" and "concat cs' = pre @ post"
  shows "calls (streamCompletionWithEvents parse (Body cs fin))
           = calls (streamCompletionWithEvents parse (Body cs' fin))
         \<and> timerCleared (streamCompletionWithEvents parse (Body cs fin))
           = timerCleared (streamCompletionWithEvents parse (Body cs' fin))"
proof -
  have skip: "\<And>s. process_line parse s l = (s, Continue)"
    using assms(1,2) by (rule process_line_malformed)
  have "process_lines parse init_session (complete_lines (concat cs))
          = process_lines parse init_session (complete_lines (concat cs'))"
    using assms(5,6) complete_lines_line [OF assms(4,3), of post]
          process_lines_skip [of parse l, OF skip]
    by simp
  then have "run_text parse init_session (concat cs) fin
               = run_text parse init_session (concat cs') fin"
    by (simp add: run_text_def)
  then have "forget (streamCompletionWithEvents parse (Body cs fin))
          = forget (streamCompletionWithEvents parse (Body cs' fin))"
    by (simp add: session_text)
  then show ?thesis
    by (metis forget_fields(1,2))
qed

theorem malformed_frame_skipped_witness:
  "startsWith line_malformed ''data: '' \<and> parse_example (drop 6 line_malformed) = None
   \<and> CHR 0x0A \<notin> set line_malformed
   \<and> (pre_content = [] \<or> last pre_content = CHR 0x0A)
   \<and> calls (streamCompletionWithEvents parse_example
         (Body [pre_content, line_malformed @ [CHR 0x0A] @ post_hi_done] StreamEnd))
       = [OnContent (JString ''Hi''), OnComplete]
   \<and> calls (streamCompletionWithEvents parse_example
         (Body [pre_content @ post_hi_done] StreamEnd))
       = [OnContent (JString ''Hi''), OnComplete]"
proof -
  have h1: "startsWith line_malformed ''data: ''" by code_simp
  have h2: "parse_example (drop 6 line_malformed) = None" by code_simp
  have h3: "CHR 0x0A \<notin> set line_malformed" by code_simp
  have h4: "pre_content = [] \<or> last pre_content = CHR 0x0A" by code_simp
  have h5: "concat [pre_content, line_malformed @ [CHR 0x0A] @ post_hi_done]
              = pre_content @ line_malformed @ [CHR 0x0A] @ post_hi_done"
    by simp
  have h6: "concat [pre_content @ post_hi_done] = pre_content @ post_hi_done" by simp
  have c: "calls (streamCompletionWithEvents parse_example
             (Body [pre_content @ post_hi_done] StreamEnd))
           = [OnContent (JString ''Hi''), OnComplete]"
    by code_simp
  from malformed_frame_skipped
         [where parse = parse_example and l = line_malformed and fin = StreamEnd,
          OF h1 h2 h3 h4 h5 h6] c h1 h2 h3 h4
  show ?thesis by simp
qed

text \<open>
  Claim C6. Let the loop reach a whole data line with the pending event name
  \<open>done\<close>, and let its payload parse, to any value at all. Then the timer is
  cleared, \<^verbatim>\<open>onComplete\<close> is called, and that is the last call of the session:
  nothing that follows the line in the body, and no later read, has any effect.
\<close>

theorem done_frame_completes:
  assumes "startsWith l ''data: ''" and "parse (drop 6 l) = Some payload"
    and "CHR 0x0A \<notin> set l" and "pre = [] \<or> last pre = CHR 0x0A"
    and "process_lines parse init_session (complete_lines pre) = (st, Continue)"
    and "currentEvent st = ''done''"
    and "concat cs = pre @ l @ [CHR 0x0A] @ post"
  shows "calls (streamCompletionWithEvents parse (Body cs fin)) = calls st @ [OnComplete]
         \<and> timerCleared (streamCompletionWithEvents parse (Body cs fin))"
proof -
  have l: "process_line parse st l = (call OnComplete (st\<lparr>timerCleared := True\<rparr>), Return)"
    using assms(1,2,6) by (simp add: process_line_def data_not_event dispatch_def)
  have "process_lines parse init_session (complete_lines (concat cs))
          = (call OnComplete (st\<lparr>timerCleared := True\<rparr>), Return)"
    using assms(5,7) complete_lines_line(1) [OF assms(4,3), of post] l
    by (simp add: process_lines_append)
  then have "finish (run_text parse init_session (concat cs) fin)
               = call OnComplete (st\<lparr>timerCleared := True\<rparr>)"
    by (simp add: run_text_def finish_def)
  then have "forget (streamCompletionWithEvents parse (Body cs fin))
          = forget (call OnComplete (st\<lparr>timerCleared := True\<rparr>))"
    by (simp add: session_text)
  then have "calls (streamCompletionWithEvents parse (Body cs fin))
               = calls (call OnComplete (st\<lparr>timerCleared := True\<rparr>))"
       and "timerCleared (streamCompletionWithEvents parse (Body cs fin))
               = timerCleared (call OnComplete (st\<lparr>timerCleared := True\<rparr>))"
    by (metis forget_fields(1), metis forget_fields(2))
  then show ?thesis by (simp add: call_def)
qed

theorem done_frame_completes_witness:
  "startsWith line_payload ''data: ''
   \<and> parse_example (drop 6 line_payload)
       = Some (JObject [(''message'', JString ''rate limited'')])
   \<and> CHR 0x0A \<notin> set line_payload
   \<and> (pre_hi_done = [] \<or> last pre_hi_done = CHR 0x0A)
   \<and> process_lines parse_example init_session (complete_lines pre_hi_done)
       = (session_before_done, Continue)
   \<and> currentEvent session_before_done = ''done''
   \<and> calls (streamCompletionWithEvents parse_example
         (Body [pre_hi_done @ line_payload @ [CHR 0x0A] @ post_there] StreamEnd))
       = [OnContent (JString ''Hi''), OnComplete]
   \<and> timerCleared (streamCompletionWithEvents parse_example
         (Body [pre_hi_done @ line_payload @ [CHR 0x0A] @ post_there] StreamEnd))"
proof -
  have h1: "startsWith line_payload ''data: ''" by code_simp
  have h2: "parse_example (drop 6 line_payload)
              = Some (JObject [(''message'', JString ''rate limited'')])"
    by code_simp
  have h3: "CHR 0x0A \<notin> set line_payload" by code_simp
  have h4: "pre_hi_done = [] \<or> last pre_hi_done = CHR 0x0A" by code_simp
  have h5: "process_lines parse_example init_session (complete_lines pre_hi_done)
              = (session_before_done, Continue)"
    by code_simp
  have h6: "currentEvent session_before_done = ''done''" by code_simp
  have h7: "concat [pre_hi_done @ line_payload @ [CHR 0x0A] @ post_there]
              = pre_hi_done @ line_payload @ [CHR 0x0A] @ post_there"
    by simp
  have c: "calls session_before_done = [OnContent (JString ''Hi'')]"
    by (simp add: session_before_done_def)
  from done_frame_completes
         [where parse = parse_example and l = line_payload and fin = StreamEnd,
          OF h1 h2 h3 h4 h5 h6 h7] c h1 h2 h3 h4 h5 h6
  show ?thesis by simp
qed

















subsection \<open>The session under the timer\<close>















end
